theory Spec2Isabelle
  imports Main
begin

section \<open>The catalog store of project.py\<close>

text \<open>
  \<^verbatim>\<open>DatabaseManager\<close> is a thin wrapper over one sqlite3 connection and one table,
  \<^verbatim>\<open>books(title TEXT NOT NULL, author TEXT NOT NULL, isbn TEXT PRIMARY KEY, genre TEXT, pub_year TEXT)\<close>.
  The model follows the wrapper line by line: each \<^verbatim>\<open>cursor.execute\<close> is a function on the
  table the connection sees, each \<^verbatim>\<open>conn.commit()\<close> copies that table to the file, and each
  \<^verbatim>\<open>sqlite3.Error\<close> is a value.
\<close>

subsection \<open>Values, rows and errors\<close>

text \<open>
  A bound parameter is Python's \<^verbatim>\<open>None\<close> (SQL NULL) or a \<^verbatim>\<open>str\<close> (SQL TEXT, kept verbatim
  by a TEXT column). Both callers in the file, the form and the sample generator, bind
  \<^verbatim>\<open>str\<close> only; NULL is what the NOT NULL constraints of the schema are about.
\<close>

datatype sql_value = Null | Text string

datatype sqlite_error = OperationalError | ProgrammingError | IntegrityError

record books_row =
  title :: sql_value
  author :: sql_value
  isbn :: sql_value
  genre :: sql_value
  pub_year :: sql_value

type_synonym books_table = "books_row list"

text \<open>
  What the engine does when the file cannot take the row an INSERT has to write
  (\<^verbatim>\<open>database or disk is full\<close>, raised as \<^verbatim>\<open>OperationalError\<close>): it undoes the one
  statement, or it rolls the whole open transaction back.
\<close>

datatype storage = Writable | FullAbortsStatement | FullRollsBack

text \<open>
  The state: the committed content of the file at \<^verbatim>\<open>db_name\<close> (\<open>None\<close> while it holds no
  \<^verbatim>\<open>books\<close> table), the content the open connection sees, which is the committed one
  plus the changes of its own open transaction, and the condition of the storage. Rows
  are kept in rowid order: a new row goes to the end.
\<close>

record database_manager =
  db_file :: "books_table option"
  conn :: "books_table option"
  storage :: storage

text \<open>SQL \<^verbatim>\<open>=\<close>: a comparison with NULL is never true.\<close>

fun sql_eq :: "sql_value \<Rightarrow> sql_value \<Rightarrow> bool" where
  "sql_eq (Text a) (Text b) = (a = b)"
| "sql_eq _ _ = False"

subsection \<open>The statements\<close>

text \<open>
  \<^verbatim>\<open>INSERT INTO books VALUES (?, ?, ?, ?, ?)\<close> takes exactly five bindings; sqlite3 raises
  \<^verbatim>\<open>ProgrammingError\<close> for any other number.
\<close>

fun bind_row :: "sql_value list \<Rightarrow> sqlite_error + books_row" where
  "bind_row [t, a, i, g, p] =
     Inr \<lparr>title = t, author = a, isbn = i, genre = g, pub_year = p\<rparr>"
| "bind_row _ = Inl ProgrammingError"

text \<open>
  One step of the INSERT on a table: the NOT NULL constraints of \<^verbatim>\<open>title\<close> and \<^verbatim>\<open>author\<close>,
  then the unique index of the primary key. \<^verbatim>\<open>isbn TEXT PRIMARY KEY\<close> carries no NOT NULL
  in this schema, and a NULL key never collides in the index. A step that fails
  changes nothing.
\<close>

definition step_insert :: "books_table \<Rightarrow> books_row \<Rightarrow> sqlite_error + books_table" where
  "step_insert t r =
     (if title r = Null \<or> author r = Null then Inl IntegrityError
      else if list_ex (\<lambda>r'. sql_eq (isbn r') (isbn r)) t then Inl IntegrityError
      else Inr (t @ [r]))"

text \<open>
  The row has passed the constraints and is written. On a full storage the statement
  raises instead, and the open transaction may be lost with it.
\<close>

definition write_table ::
  "books_table \<Rightarrow> database_manager \<Rightarrow> (sqlite_error + unit) \<times> database_manager" where
  "write_table t' s =
     (case storage s of
        Writable \<Rightarrow> (Inr (), s\<lparr>conn := Some t'\<rparr>)
      | FullAbortsStatement \<Rightarrow> (Inl OperationalError, s)
      | FullRollsBack \<Rightarrow> (Inl OperationalError, s\<lparr>conn := db_file s\<rparr>))"

definition execute_insert ::
  "sql_value list \<Rightarrow> database_manager \<Rightarrow> (sqlite_error + unit) \<times> database_manager" where
  "execute_insert book_data s =
     (case conn s of
        None \<Rightarrow> (Inl OperationalError, s)
      | Some t \<Rightarrow>
          (case bind_row book_data of
             Inl e \<Rightarrow> (Inl e, s)
           | Inr r \<Rightarrow>
               (case step_insert t r of
                  Inl e \<Rightarrow> (Inl e, s)
                | Inr t' \<Rightarrow> write_table t' s)))"

text \<open>
  \<^verbatim>\<open>executemany\<close> runs the same statement for each parameter tuple, on the same connection
  and with no commit in between. It stops at the first tuple that raises; the rows
  inserted before it stay in the open transaction, unless the error rolled that back.
\<close>

fun step_insert_many ::
  "sql_value list list \<Rightarrow> database_manager \<Rightarrow> (sqlite_error + unit) \<times> database_manager" where
  "step_insert_many [] s = (Inr (), s)"
| "step_insert_many (p # ps) s =
     (case execute_insert p s of
        (Inl e, s') \<Rightarrow> (Inl e, s')
      | (Inr u, s') \<Rightarrow> step_insert_many ps s')"

definition executemany_insert ::
  "sql_value list list \<Rightarrow> database_manager \<Rightarrow> (sqlite_error + unit) \<times> database_manager" where
  "executemany_insert seq_of_parameters s =
     (case conn s of
        None \<Rightarrow> (Inl OperationalError, s)
      | Some t \<Rightarrow> step_insert_many seq_of_parameters s)"

text \<open>\<^verbatim>\<open>DELETE FROM books WHERE isbn = ?\<close>: no matching row is no error.\<close>

definition execute_delete ::
  "string \<Rightarrow> database_manager \<Rightarrow> (sqlite_error + unit) \<times> database_manager" where
  "execute_delete k s =
     (case conn s of
        None \<Rightarrow> (Inl OperationalError, s)
      | Some t \<Rightarrow>
          (Inr (), s\<lparr>conn := Some (filter (\<lambda>r. \<not> sql_eq (isbn r) (Text k)) t)\<rparr>))"

text \<open>\<^verbatim>\<open>CREATE TABLE IF NOT EXISTS books (...)\<close>.\<close>

definition execute_create :: "database_manager \<Rightarrow> database_manager" where
  "execute_create s = (case conn s of None \<Rightarrow> s\<lparr>conn := Some []\<rparr> | Some t \<Rightarrow> s)"

definition commit :: "database_manager \<Rightarrow> database_manager" where
  "commit s = s\<lparr>db_file := conn s\<rparr>"

subsection \<open>The methods of DatabaseManager\<close>

text \<open>
  \<^verbatim>\<open>connect\<close> opens a new connection to the file: it sees what is committed there. What
  an earlier connection of this object left uncommitted is gone with that connection.
\<close>

definition connect :: "database_manager \<Rightarrow> database_manager" where
  "connect s = s\<lparr>conn := db_file s\<rparr>"

definition create_tables :: "database_manager \<Rightarrow> database_manager" where
  "create_tables s = commit (execute_create s)"

text \<open>\<^verbatim>\<open>__init__\<close>: connect, then create the schema.\<close>

definition initialize :: "database_manager \<Rightarrow> database_manager" where
  "initialize s = create_tables (connect s)"

text \<open>A location that holds nothing yet, on a storage with room.\<close>

definition empty_location :: database_manager where
  "empty_location = \<lparr>db_file = None, conn = None, storage = Writable\<rparr>"

definition add_book :: "sql_value list \<Rightarrow> database_manager \<Rightarrow> bool \<times> database_manager" where
  "add_book book_data s =
     (case execute_insert book_data s of
        (Inl e, s') \<Rightarrow> (False, s')
      | (Inr u, s') \<Rightarrow> (True, commit s'))"

text \<open>\<^verbatim>\<open>get_all_books\<close> catches nothing: a missing table raises.\<close>

definition get_all_books :: "database_manager \<Rightarrow> sqlite_error + books_row list" where
  "get_all_books s = (case conn s of None \<Rightarrow> Inl OperationalError | Some t \<Rightarrow> Inr t)"

definition delete_book :: "string \<Rightarrow> database_manager \<Rightarrow> bool \<times> database_manager" where
  "delete_book k s =
     (case execute_delete k s of
        (Inl e, s') \<Rightarrow> (False, s')
      | (Inr u, s') \<Rightarrow> (True, commit s'))"

text \<open>
  Lines 61 and 62 of \<^verbatim>\<open>add_sample_books\<close>: \<^verbatim>\<open>executemany\<close>, then \<^verbatim>\<open>commit\<close>. Nothing is
  caught and nothing is rolled back: an error of \<^verbatim>\<open>executemany\<close> leaves the method before
  the commit.
\<close>

definition insert_sample_data ::
  "sql_value list list \<Rightarrow> database_manager \<Rightarrow> (sqlite_error + unit) \<times> database_manager" where
  "insert_sample_data sample_data s =
     (case executemany_insert sample_data s of
        (Inl e, s') \<Rightarrow> (Inl e, s')
      | (Inr u, s') \<Rightarrow> (Inr (), commit s'))"

subsection \<open>The sample generator\<close>

text \<open>
  Python's \<^verbatim>\<open>str\<close> on an \<^verbatim>\<open>int\<close>: the decimal digits, most significant first, after a minus
  sign for a negative number.
\<close>

definition digit_char :: "int \<Rightarrow> char" where
  "digit_char d = char_of (48 + d)"

function str_digits :: "int \<Rightarrow> string" where
  "str_digits n =
     (if n < 10 then [digit_char n] else str_digits (n div 10) @ [digit_char (n mod 10)])"
  by pat_completeness auto
termination
  by (relation "measure nat") auto

declare str_digits.simps [simp del]

definition str :: "int \<Rightarrow> string" where
  "str i = (if i < 0 then CHR ''-'' # str_digits (- i) else str_digits i)"

text \<open>
  The random module is an oracle: \<open>rnd c\<close> is the raw outcome of the \<open>c\<close>-th draw, and every
  function that draws returns the index of the next draw. \<^verbatim>\<open>randint(a, b)\<close> is used with
  \<open>a \<le> b\<close> only and \<^verbatim>\<open>choice\<close> on the three non-empty lists only.
\<close>

type_synonym rng = "nat \<Rightarrow> nat"

definition randint :: "rng \<Rightarrow> nat \<Rightarrow> int \<Rightarrow> int \<Rightarrow> int \<times> nat" where
  "randint rnd c a b = (a + int (rnd c mod nat (b - a + 1)), Suc c)"

definition choice :: "rng \<Rightarrow> nat \<Rightarrow> 'a list \<Rightarrow> 'a \<times> nat" where
  "choice rnd c xs = (xs ! (rnd c mod length xs), Suc c)"

definition titles :: "string list" where
  "titles =
     [''The Art of Programming'', ''Digital Fortress'', ''The Silent Patient'',
      ''The Midnight Library'', ''Atomic Habits'', ''Deep Learning Basics'',
      ''Python Mastery'', ''Data Science 101'', ''Web Development Guide'',
      ''Artificial Intelligence'']"

definition authors :: "string list" where
  "authors =
     [''John Smith'', ''Emma Wilson'', ''Michael Brown'', ''Sarah Davis'',
      ''James Johnson'', ''Robert Martin'', ''David Miller'', ''Lisa Anderson'']"

definition genres :: "string list" where
  "genres =
     [''Programming'', ''Technology'', ''Computer Science'', ''Software Development'',
      ''Data Science'', ''Web Development'', ''Artificial Intelligence'']"

text \<open>\<^verbatim>\<open>[str(random.randint(0, 9)) for _ in range(n)]\<close>\<close>

fun isbn_digits :: "rng \<Rightarrow> nat \<Rightarrow> nat \<Rightarrow> string list \<times> nat" where
  "isbn_digits rnd c 0 = ([], c)"
| "isbn_digits rnd c (Suc n) =
     (let (d, c1) = randint rnd c 0 9;
          (ds, c2) = isbn_digits rnd c1 n
      in (str d # ds, c2))"

text \<open>One pass of the body of \<^verbatim>\<open>for _ in range(50)\<close>: the tuple appended and the next draw.\<close>

definition sample_book :: "rng \<Rightarrow> int \<Rightarrow> nat \<Rightarrow> sql_value list \<times> nat" where
  "sample_book rnd current_year c =
     (let (t, c1) = choice rnd c titles;
          (k, c2) = randint rnd c1 1 5;
          (a, c3) = choice rnd c2 authors;
          (ds, c4) = isbn_digits rnd c3 10;
          (g, c5) = choice rnd c4 genres;
          (y, c6) = randint rnd c5 (current_year - 20) current_year
      in ([Text (t @ '' '' @ str k), Text a, Text (concat ds), Text g, Text (str y)], c6))"

fun sample_loop :: "rng \<Rightarrow> int \<Rightarrow> nat \<Rightarrow> nat \<Rightarrow> sql_value list list \<Rightarrow> sql_value list list" where
  "sample_loop rnd current_year 0 c books = books"
| "sample_loop rnd current_year (Suc n) c books =
     (let (book, c') = sample_book rnd current_year c
      in sample_loop rnd current_year n c' (books @ [book]))"

definition generate_sample_data :: "rng \<Rightarrow> int \<Rightarrow> sql_value list list" where
  "generate_sample_data rnd current_year = sample_loop rnd current_year 50 0 []"

definition add_sample_books ::
  "rng \<Rightarrow> int \<Rightarrow> database_manager \<Rightarrow> (sqlite_error + unit) \<times> database_manager" where
  "add_sample_books rnd current_year s =
     insert_sample_data (generate_sample_data rnd current_year) s"

subsection \<open>Sequences of operations, and reading a text as a number\<close>

datatype store_op =
    Initialize
  | Insert "sql_value list"
  | InsertMany "sql_value list list"
  | Delete string

fun apply_op :: "store_op \<Rightarrow> database_manager \<Rightarrow> database_manager" where
  "apply_op Initialize s = initialize s"
| "apply_op (Insert book_data) s = snd (add_book book_data s)"
| "apply_op (InsertMany sample_data) s = snd (insert_sample_data sample_data s)"
| "apply_op (Delete k) s = snd (delete_book k s)"

fun run :: "store_op list \<Rightarrow> database_manager \<Rightarrow> database_manager" where
  "run [] s = s"
| "run (x # xs) s = run xs (apply_op x s)"

text \<open>
  The records of the data model carry a text as isbn. A sequence of operations binds
  text keys only when every record it inserts, singly or in a batch, does; a tuple that
  is not five values is no record and is never stored.
\<close>

definition text_isbn :: "sql_value list \<Rightarrow> bool" where
  "text_isbn book_data =
     (case bind_row book_data of Inl e \<Rightarrow> True | Inr r \<Rightarrow> isbn r \<noteq> Null)"

fun binds_text_isbn :: "store_op \<Rightarrow> bool" where
  "binds_text_isbn Initialize = True"
| "binds_text_isbn (Insert book_data) = text_isbn book_data"
| "binds_text_isbn (InsertMany sample_data) = list_all text_isbn sample_data"
| "binds_text_isbn (Delete k) = True"

definition is_digit :: "char \<Rightarrow> bool" where
  "is_digit ch = (48 \<le> (of_char ch :: int) \<and> (of_char ch :: int) \<le> 57)"

definition read_digits :: "string \<Rightarrow> int option" where
  "read_digits ds =
     (if ds \<noteq> [] \<and> list_all is_digit ds
      then Some (foldl (\<lambda>acc ch. 10 * acc + (of_char ch - 48)) 0 ds) else None)"

definition read_number :: "string \<Rightarrow> int option" where
  "read_number txt =
     (case txt of
        [] \<Rightarrow> None
      | ch # ds \<Rightarrow>
          if ch = CHR ''-'' then map_option uminus (read_digits ds)
          else read_digits txt)"

subsection \<open>Uniqueness of the keys\<close>

text \<open>
  The invariant of the unique index: the keys that are not NULL are pairwise distinct, in
  the table the connection sees and in the committed one. With records of the data
  model only, no key is NULL.
\<close>

definition unique_keys :: "books_table \<Rightarrow> bool" where
  "unique_keys t = distinct (filter (\<lambda>v. v \<noteq> Null) (map isbn t))"

definition store_inv :: "database_manager \<Rightarrow> bool" where
  "store_inv s =
     ((case conn s of None \<Rightarrow> True | Some t \<Rightarrow> unique_keys t) \<and>
      (case db_file s of None \<Rightarrow> True | Some t \<Rightarrow> unique_keys t))"

definition text_keys :: "database_manager \<Rightarrow> bool" where
  "text_keys s =
     ((case conn s of None \<Rightarrow> True | Some t \<Rightarrow> list_all (\<lambda>r. isbn r \<noteq> Null) t) \<and>
      (case db_file s of None \<Rightarrow> True | Some t \<Rightarrow> list_all (\<lambda>r. isbn r \<noteq> Null) t))"

section \<open>Properties\<close>

subsection \<open>What the statements do\<close>

lemma get_all_books_conn: "get_all_books s = Inr rows \<longleftrightarrow> conn s = Some rows"
  by (simp add: get_all_books_def split: option.splits)

lemma bind_row_Inr:
  "bind_row xs = Inr r \<Longrightarrow> xs = [title r, author r, isbn r, genre r, pub_year r]"
  by (induction xs rule: bind_row.induct) auto

lemma step_insert_Inr: "step_insert t r = Inr t' \<Longrightarrow> t' = t @ [r]"
  by (simp add: step_insert_def split: if_splits)

lemma sql_eq_Text: "sql_eq v (Text k) \<longleftrightarrow> v = Text k"
  by (cases v) auto

lemma list_ex_key: "list_ex (\<lambda>r'. sql_eq (isbn r') (Text k)) t \<longleftrightarrow> Text k \<in> isbn ` set t"
  by (force simp: list_ex_iff sql_eq_Text)

lemma execute_insert_cases:
  assumes "execute_insert p s = (res, s')"
  shows "(\<exists>e. res = Inl e \<and> (s' = s \<or> (storage s = FullRollsBack \<and> s' = s\<lparr>conn := db_file s\<rparr>))) \<or>
         (\<exists>t r. res = Inr () \<and> conn s = Some t \<and> bind_row p = Inr r \<and>
            step_insert t r = Inr (t @ [r]) \<and> storage s = Writable \<and>
            s' = s\<lparr>conn := Some (t @ [r])\<rparr>)"
  using assms
  by (auto simp: execute_insert_def write_table_def
      split: option.splits sum.splits storage.splits dest: step_insert_Inr)

lemma execute_insert_Inr:
  "execute_insert p s = (Inr u, s') \<Longrightarrow>
     \<exists>t r. conn s = Some t \<and> bind_row p = Inr r \<and> step_insert t r = Inr (t @ [r]) \<and>
       storage s = Writable \<and> s' = s\<lparr>conn := Some (t @ [r])\<rparr>"
  using execute_insert_cases [of p s "Inr u" s'] by auto

lemma execute_insert_Inl:
  "execute_insert p s = (Inl e, s') \<Longrightarrow>
     s' = s \<or> (storage s = FullRollsBack \<and> s' = s\<lparr>conn := db_file s\<rparr>)"
  using execute_insert_cases [of p s "Inl e" s'] by auto

lemma add_book_False:
  "add_book xs s = (False, s') \<Longrightarrow>
     s' = s \<or> (storage s = FullRollsBack \<and> s' = s\<lparr>conn := db_file s\<rparr>)"
  by (auto simp: add_book_def split: prod.splits sum.splits dest: execute_insert_Inl)

lemma add_book_True:
  "add_book xs s = (True, s') \<Longrightarrow>
     \<exists>t r. conn s = Some t \<and> bind_row xs = Inr r \<and> storage s = Writable \<and>
       s' = s\<lparr>conn := Some (t @ [r]), db_file := Some (t @ [r])\<rparr>"
  by (auto simp: add_book_def commit_def split: prod.splits sum.splits
      dest!: execute_insert_Inr)

lemma add_book_succeeds_iff:
  "fst (add_book [t, a, i, g, p] s) \<longleftrightarrow>
     (\<exists>rows. get_all_books s = Inr rows \<and> (\<forall>r \<in> set rows. \<not> sql_eq (isbn r) i)) \<and>
     t \<noteq> Null \<and> a \<noteq> Null \<and> storage s = Writable"
  by (auto simp: add_book_def execute_insert_def step_insert_def write_table_def
      get_all_books_def list_ex_iff split: option.splits storage.splits)

lemma add_book_duplicate:
  "conn s = Some rows \<Longrightarrow> r \<in> set rows \<Longrightarrow> isbn r = Text k \<Longrightarrow>
     add_book [t, a, Text k, g, p] s = (False, s)"
  by (force simp: add_book_def execute_insert_def step_insert_def list_ex_key)

lemma delete_book_conn:
  "conn s = Some t \<Longrightarrow> delete_book k s =
     (True, s\<lparr>conn := Some (filter (\<lambda>r. isbn r \<noteq> Text k) t),
              db_file := Some (filter (\<lambda>r. isbn r \<noteq> Text k) t)\<rparr>)"
  by (simp add: delete_book_def execute_delete_def commit_def sql_eq_Text)

lemma update_conn_same: "conn s = Some rows \<Longrightarrow> s\<lparr>conn := Some rows\<rparr> = s"
  by (cases s) simp

text \<open>
  The definitions that a run of the store on concrete records unfolds.
\<close>

lemmas store_defs =
  initialize_def create_tables_def connect_def commit_def execute_create_def
  empty_location_def add_book_def execute_insert_def step_insert_def write_table_def
  get_all_books_def delete_book_def execute_delete_def
  insert_sample_data_def executemany_insert_def

subsection \<open>The unique index is kept by every operation\<close>

lemma step_insert_unique:
  assumes "step_insert t r = Inr t'" "unique_keys t"
  shows "unique_keys t'"
proof (cases "isbn r")
  case Null
  with assms show ?thesis
    by (auto simp: step_insert_def unique_keys_def split: if_splits)
next
  case (Text k)
  with assms show ?thesis
    by (auto simp: step_insert_def unique_keys_def list_ex_key split: if_splits)
qed

lemma execute_insert_inv:
  assumes "execute_insert p s = (res, s')" and "store_inv s"
  shows "store_inv s'"
proof -
  from execute_insert_cases [OF assms(1)] show ?thesis
  proof (elim disjE exE conjE)
    fix e assume "s' = s"
    then show ?thesis using assms(2) by simp
  next
    fix e assume "s' = s\<lparr>conn := db_file s\<rparr>"
    then show ?thesis using assms(2) by (simp add: store_inv_def)
  next
    fix t r assume c: "conn s = Some t" and st: "step_insert t r = Inr (t @ [r])"
      and s': "s' = s\<lparr>conn := Some (t @ [r])\<rparr>"
    have "unique_keys t" using assms(2) c by (simp add: store_inv_def)
    then have "unique_keys (t @ [r])" using st by (rule step_insert_unique [rotated])
    then show ?thesis using assms(2) s' by (simp add: store_inv_def)
  qed
qed

lemma step_insert_many_inv:
  "step_insert_many ps s = (res, s') \<Longrightarrow> store_inv s \<Longrightarrow> store_inv s'"
proof (induction ps arbitrary: s)
  case Nil
  then show ?case by simp
next
  case (Cons p ps)
  obtain r1 s1 where e: "execute_insert p s = (r1, s1)" by (cases "execute_insert p s")
  then have i: "store_inv s1" using Cons.prems(2) by (rule execute_insert_inv)
  show ?case
  proof (cases r1)
    case (Inl e')
    with e Cons.prems(1) have "s' = s1" by simp
    with i show ?thesis by simp
  next
    case (Inr u)
    with e Cons.prems(1) have "step_insert_many ps s1 = (res, s')" by simp
    then show ?thesis using i by (rule Cons.IH)
  qed
qed

lemma filter_unique: "unique_keys t \<Longrightarrow> unique_keys (filter P t)"
  unfolding unique_keys_def
  by (induction t) auto

lemma commit_inv: "store_inv s \<Longrightarrow> store_inv (commit s)"
  by (simp add: store_inv_def commit_def)

lemma initialize_inv: "store_inv s \<Longrightarrow> store_inv (initialize s)"
  by (auto simp: store_inv_def initialize_def create_tables_def connect_def commit_def
      execute_create_def unique_keys_def split: option.splits)

lemma add_book_inv: "store_inv s \<Longrightarrow> store_inv (snd (add_book xs s))"
proof -
  assume i: "store_inv s"
  obtain r1 s1 where e: "execute_insert xs s = (r1, s1)" by (cases "execute_insert xs s")
  then have "store_inv s1" using i by (rule execute_insert_inv)
  then show ?thesis using e by (cases r1) (simp_all add: add_book_def commit_inv)
qed

lemma delete_book_inv: "store_inv s \<Longrightarrow> store_inv (snd (delete_book k s))"
  by (auto simp: store_inv_def delete_book_def execute_delete_def commit_def filter_unique
      split: option.splits)

lemma insert_sample_data_inv: "store_inv s \<Longrightarrow> store_inv (snd (insert_sample_data ps s))"
proof (cases "conn s")
  case None
  assume "store_inv s"
  then show ?thesis using None by (simp add: insert_sample_data_def executemany_insert_def)
next
  case (Some t)
  assume i: "store_inv s"
  obtain r1 s1 where e: "step_insert_many ps s = (r1, s1)" by (cases "step_insert_many ps s")
  then have "store_inv s1" using i by (rule step_insert_many_inv)
  then show ?thesis using e Some
    by (cases r1) (simp_all add: insert_sample_data_def executemany_insert_def commit_inv)
qed

lemma apply_op_inv: "store_inv s \<Longrightarrow> store_inv (apply_op x s)"
  by (cases x) (simp_all add: initialize_inv add_book_inv delete_book_inv insert_sample_data_inv)

lemma run_inv: "store_inv s \<Longrightarrow> store_inv (run xs s)"
  by (induction xs arbitrary: s) (simp_all add: apply_op_inv)

lemma empty_location_inv: "store_inv empty_location"
  by (simp add: store_inv_def empty_location_def)

lemma reachable_unique:
  "get_all_books (run xs empty_location) = Inr rows \<Longrightarrow> unique_keys rows"
  using run_inv [OF empty_location_inv, of xs]
  by (simp add: get_all_books_conn store_inv_def)

lemma unique_keys_filter_key:
  "unique_keys rows \<Longrightarrow> r \<in> set rows \<Longrightarrow> isbn r = Text k \<Longrightarrow>
     filter (\<lambda>r'. isbn r' = Text k) rows = [r]"
proof (induction rows)
  case Nil
  then show ?case by simp
next
  case (Cons x rows)
  show ?case
  proof (cases "isbn x = Text k")
    case True
    with Cons.prems have notin: "Text k \<notin> isbn ` set rows"
      by (auto simp: unique_keys_def)
    then have "filter (\<lambda>r'. isbn r' = Text k) rows = []"
      by (force simp: filter_empty_conv)
    moreover from notin Cons.prems have "r = x" by force
    ultimately show ?thesis using True by simp
  next
    case False
    with Cons.prems have "r \<in> set rows" and "unique_keys rows"
      by (auto simp: unique_keys_def split: if_splits)
    with Cons.IH Cons.prems False show ?thesis by simp
  qed
qed

lemma execute_insert_text:
  assumes "execute_insert p s = (res, s')" and "text_keys s" and "text_isbn p"
  shows "text_keys s'"
proof -
  from execute_insert_cases [OF assms(1)] show ?thesis
  proof (elim disjE exE conjE)
    fix e assume "s' = s"
    then show ?thesis using assms(2) by simp
  next
    fix e assume "s' = s\<lparr>conn := db_file s\<rparr>"
    then show ?thesis using assms(2) by (simp add: text_keys_def)
  next
    fix t r assume c: "conn s = Some t" and b: "bind_row p = Inr r"
      and s': "s' = s\<lparr>conn := Some (t @ [r])\<rparr>"
    have "isbn r \<noteq> Null" using assms(3) b by (simp add: text_isbn_def)
    then show ?thesis using assms(2) c s' by (simp add: text_keys_def)
  qed
qed

lemma step_insert_many_text:
  "step_insert_many ps s = (res, s') \<Longrightarrow> text_keys s \<Longrightarrow> list_all text_isbn ps \<Longrightarrow>
     text_keys s'"
proof (induction ps arbitrary: s)
  case Nil
  then show ?case by simp
next
  case (Cons p ps)
  obtain r1 s1 where e: "execute_insert p s = (r1, s1)" by (cases "execute_insert p s")
  have i: "text_keys s1" using e Cons.prems(2,3) by (auto intro: execute_insert_text)
  show ?case
  proof (cases r1)
    case (Inl e')
    with e Cons.prems(1) have "s' = s1" by simp
    with i show ?thesis by simp
  next
    case (Inr u)
    with e Cons.prems(1) have "step_insert_many ps s1 = (res, s')" by simp
    then show ?thesis using i Cons.prems(3) by (intro Cons.IH) simp_all
  qed
qed

lemma commit_text: "text_keys s \<Longrightarrow> text_keys (commit s)"
  by (simp add: text_keys_def commit_def)

lemma apply_op_text:
  assumes "text_keys s" and "binds_text_isbn x"
  shows "text_keys (apply_op x s)"
proof (cases x)
  case Initialize
  then show ?thesis using assms(1)
    by (auto simp: text_keys_def initialize_def create_tables_def connect_def commit_def
        execute_create_def split: option.splits)
next
  case (Insert p)
  obtain r1 s1 where e: "execute_insert p s = (r1, s1)" by (cases "execute_insert p s")
  have "text_keys s1" using e assms Insert by (auto intro: execute_insert_text)
  then show ?thesis using e Insert by (cases r1) (simp_all add: add_book_def commit_text)
next
  case (InsertMany ps)
  show ?thesis
  proof (cases "conn s")
    case None
    then show ?thesis using assms(1) InsertMany
      by (simp add: insert_sample_data_def executemany_insert_def)
  next
    case (Some t)
    obtain r1 s1 where e: "step_insert_many ps s = (r1, s1)" by (cases "step_insert_many ps s")
    have "text_keys s1" using e assms InsertMany by (auto intro: step_insert_many_text)
    then show ?thesis using e Some InsertMany
      by (cases r1) (simp_all add: insert_sample_data_def executemany_insert_def commit_text)
  qed
next
  case (Delete k)
  then show ?thesis using assms(1)
    by (auto simp: text_keys_def delete_book_def execute_delete_def commit_def list_all_iff
        split: option.splits)
qed

lemma run_text: "text_keys s \<Longrightarrow> list_all binds_text_isbn xs \<Longrightarrow> text_keys (run xs s)"
  by (induction xs arbitrary: s) (simp_all add: apply_op_text)

lemma empty_location_text: "text_keys empty_location"
  by (simp add: text_keys_def empty_location_def)

subsection \<open>Uniqueness of isbn\<close>

text \<open>
  Claim C2. In every state reached from an empty location by a sequence of \<^verbatim>\<open>__init__\<close>,
  \<^verbatim>\<open>add_book\<close>, batch inserts and \<^verbatim>\<open>delete_book\<close> whose records carry a text as isbn, the
  isbn values of the rows that \<^verbatim>\<open>get_all_books\<close> returns are pairwise distinct. Whatever
  the records carry, the isbn values other than NULL are pairwise distinct.
\<close>

theorem reachable_isbn_distinct:
  "(list_all binds_text_isbn ops \<and> get_all_books (run ops empty_location) = Inr rows \<longrightarrow>
      distinct (map isbn rows)) \<and>
   (get_all_books (run ops empty_location) = Inr rows \<longrightarrow>
      distinct (filter (\<lambda>v. v \<noteq> Null) (map isbn rows)))"
proof (intro conjI impI)
  assume g: "get_all_books (run ops empty_location) = Inr rows"
  then show "distinct (filter (\<lambda>v. v \<noteq> Null) (map isbn rows))"
    using reachable_unique [of ops rows] by (simp add: unique_keys_def)
next
  assume a: "list_all binds_text_isbn ops \<and> get_all_books (run ops empty_location) = Inr rows"
  then have u: "distinct (filter (\<lambda>v. v \<noteq> Null) (map isbn rows))"
    using reachable_unique [of ops rows] by (simp add: unique_keys_def)
  have "text_keys (run ops empty_location)"
    using a by (intro run_text empty_location_text) simp
  then have "list_all (\<lambda>r. isbn r \<noteq> Null) rows"
    using a by (simp add: text_keys_def get_all_books_conn)
  then have "filter (\<lambda>v. v \<noteq> Null) (map isbn rows) = map isbn rows"
    by (induction rows) simp_all
  with u show "distinct (map isbn rows)" by simp
qed

theorem reachable_isbn_distinct_witness:
  "list_all binds_text_isbn [Initialize,
     Insert [Text ''Dune'', Text ''Frank Herbert'', Text ''1234567890'', Text ''Sci-Fi'', Text ''1965''],
     Insert [Text ''Emma'', Text ''Jane Austen'', Text ''0987654321'', Text ''Novel'', Text ''1815''],
     Insert [Text ''Dune Messiah'', Text ''Frank Herbert'', Text ''1234567890'', Text ''Sci-Fi'', Text ''1969'']] \<and>
   get_all_books (run [Initialize,
     Insert [Text ''Dune'', Text ''Frank Herbert'', Text ''1234567890'', Text ''Sci-Fi'', Text ''1965''],
     Insert [Text ''Emma'', Text ''Jane Austen'', Text ''0987654321'', Text ''Novel'', Text ''1815''],
     Insert [Text ''Dune Messiah'', Text ''Frank Herbert'', Text ''1234567890'', Text ''Sci-Fi'', Text ''1969'']]
     empty_location) =
   Inr [\<lparr>title = Text ''Dune'', author = Text ''Frank Herbert'', isbn = Text ''1234567890'',
       genre = Text ''Sci-Fi'', pub_year = Text ''1965''\<rparr>,
      \<lparr>title = Text ''Emma'', author = Text ''Jane Austen'', isbn = Text ''0987654321'',
       genre = Text ''Novel'', pub_year = Text ''1815''\<rparr>] \<and>
   distinct (map isbn
     [\<lparr>title = Text ''Dune'', author = Text ''Frank Herbert'', isbn = Text ''1234567890'',
       genre = Text ''Sci-Fi'', pub_year = Text ''1965''\<rparr>,
      \<lparr>title = Text ''Emma'', author = Text ''Jane Austen'', isbn = Text ''0987654321'',
       genre = Text ''Novel'', pub_year = Text ''1815''\<rparr>])"
proof -
  let ?ops = "[Initialize,
     Insert [Text ''Dune'', Text ''Frank Herbert'', Text ''1234567890'', Text ''Sci-Fi'', Text ''1965''],
     Insert [Text ''Emma'', Text ''Jane Austen'', Text ''0987654321'', Text ''Novel'', Text ''1815''],
     Insert [Text ''Dune Messiah'', Text ''Frank Herbert'', Text ''1234567890'', Text ''Sci-Fi'', Text ''1969'']]"
  let ?rows = "[\<lparr>title = Text ''Dune'', author = Text ''Frank Herbert'', isbn = Text ''1234567890'',
       genre = Text ''Sci-Fi'', pub_year = Text ''1965''\<rparr>,
      \<lparr>title = Text ''Emma'', author = Text ''Jane Austen'', isbn = Text ''0987654321'',
       genre = Text ''Novel'', pub_year = Text ''1815''\<rparr>]"
  have t: "list_all binds_text_isbn ?ops" by (simp add: text_isbn_def)
  have h: "get_all_books (run ?ops empty_location) = Inr ?rows"
    by (simp add: store_defs)
  have "distinct (map isbn ?rows)"
    using reachable_isbn_distinct [of ?ops ?rows] t h by blast
  with t h show ?thesis by blast
qed

text \<open>
  The first half needs its hypothesis: \<^verbatim>\<open>isbn TEXT PRIMARY KEY\<close> admits NULL, and NULL keys
  never collide, so two records bound with \<^verbatim>\<open>None\<close> as isbn are both stored.
\<close>

lemma null_isbn_repeats:
  "get_all_books (run [Initialize,
       Insert [Text ''Dune'', Text ''Frank Herbert'', Null, Text ''Sci-Fi'', Text ''1965''],
       Insert [Text ''Emma'', Text ''Jane Austen'', Null, Text ''Novel'', Text ''1815'']]
     empty_location)
   = Inr [\<lparr>title = Text ''Dune'', author = Text ''Frank Herbert'', isbn = Null,
       genre = Text ''Sci-Fi'', pub_year = Text ''1965''\<rparr>,
      \<lparr>title = Text ''Emma'', author = Text ''Jane Austen'', isbn = Null,
       genre = Text ''Novel'', pub_year = Text ''1815''\<rparr>]"
  by (simp add: store_defs)

text \<open>
  Claim C1. In a state reached from an empty location whose table holds a record \<open>r\<close>
  with the isbn \<open>k\<close>, a text, \<^verbatim>\<open>add_book\<close> of any record with isbn \<open>k\<close>, whatever its other
  four fields are, returns \<open>False\<close> and leaves the state as it was; \<^verbatim>\<open>get_all_books\<close>
  afterwards returns the same rows, and \<open>r\<close> is the only row with that isbn.
\<close>

theorem add_book_duplicate_isbn:
  assumes "s = run ops empty_location"
    and "get_all_books s = Inr rows" and "r \<in> set rows" and "isbn r = Text k"
  shows "add_book [t, a, Text k, g, p] s = (False, s) \<and>
         get_all_books (snd (add_book [t, a, Text k, g, p] s)) = Inr rows \<and>
         filter (\<lambda>r'. isbn r' = Text k) rows = [r]"
proof -
  have c: "conn s = Some rows" using assms(2) by (simp add: get_all_books_conn)
  have f: "add_book [t, a, Text k, g, p] s = (False, s)"
    using add_book_duplicate [OF c assms(3,4)] .
  have u: "unique_keys rows" using reachable_unique assms(1,2) by blast
  show ?thesis
    using f assms(2) unique_keys_filter_key [OF u assms(3,4)] by simp
qed

theorem add_book_duplicate_isbn_witness:
  "add_book [Text ''Emma'', Text ''Jane Austen'', Text ''1234567890'', Text ''Novel'', Text ''1815'']
     (run [Initialize, Insert [Text ''Dune'', Text ''Frank Herbert'', Text ''1234567890'',
        Text ''Sci-Fi'', Text ''1965'']] empty_location)
   = (False, run [Initialize, Insert [Text ''Dune'', Text ''Frank Herbert'', Text ''1234567890'',
        Text ''Sci-Fi'', Text ''1965'']] empty_location) \<and>
   filter (\<lambda>r'. isbn r' = Text ''1234567890'')
     [\<lparr>title = Text ''Dune'', author = Text ''Frank Herbert'', isbn = Text ''1234567890'',
       genre = Text ''Sci-Fi'', pub_year = Text ''1965''\<rparr>]
   = [\<lparr>title = Text ''Dune'', author = Text ''Frank Herbert'', isbn = Text ''1234567890'',
       genre = Text ''Sci-Fi'', pub_year = Text ''1965''\<rparr>]"
proof -
  let ?s = "run [Initialize, Insert [Text ''Dune'', Text ''Frank Herbert'', Text ''1234567890'',
        Text ''Sci-Fi'', Text ''1965'']] empty_location"
  let ?r = "\<lparr>title = Text ''Dune'', author = Text ''Frank Herbert'', isbn = Text ''1234567890'',
       genre = Text ''Sci-Fi'', pub_year = Text ''1965''\<rparr>"
  have h: "get_all_books ?s = Inr [?r]" by (simp add: store_defs)
  show ?thesis
    using add_book_duplicate_isbn [OF refl h, of ?r "''1234567890''" "Text ''Emma''"
        "Text ''Jane Austen''" "Text ''Novel''" "Text ''1815''"]
    by simp
qed

subsection \<open>Insert\<close>

text \<open>
  Claim C3. Whenever \<^verbatim>\<open>add_book\<close> returns \<open>True\<close>, the table held some rows before, and
  \<^verbatim>\<open>get_all_books\<close> on the resulting state returns those rows followed by one new row
  whose five columns are exactly the five values bound, in the order bound; the same
  rows are committed. And \<^verbatim>\<open>add_book\<close> of five values does return \<open>True\<close> exactly when the
  table exists, no row carries that isbn, title and author are not NULL and the storage
  takes the row.
\<close>

theorem add_book_roundtrip:
  "(add_book book_data s = (True, s') \<longrightarrow>
      (\<exists>rows r. get_all_books s = Inr rows \<and>
         book_data = [title r, author r, isbn r, genre r, pub_year r] \<and>
         get_all_books s' = Inr (rows @ [r]) \<and> db_file s' = Some (rows @ [r]))) \<and>
   (fst (add_book [t, a, i, g, p] s) = True \<longleftrightarrow>
      (\<exists>rows. get_all_books s = Inr rows \<and> (\<forall>r \<in> set rows. \<not> sql_eq (isbn r) i)) \<and>
      t \<noteq> Null \<and> a \<noteq> Null \<and> storage s = Writable)"
proof (intro conjI impI)
  assume "add_book book_data s = (True, s')"
  from add_book_True [OF this] obtain rows r where
    c: "conn s = Some rows" and b: "bind_row book_data = Inr r"
    and s': "s' = s\<lparr>conn := Some (rows @ [r]), db_file := Some (rows @ [r])\<rparr>"
    by blast
  have "get_all_books s = Inr rows" using c by (simp add: get_all_books_def)
  moreover have "book_data = [title r, author r, isbn r, genre r, pub_year r]"
    using b by (rule bind_row_Inr)
  moreover have "get_all_books s' = Inr (rows @ [r])" "db_file s' = Some (rows @ [r])"
    by (simp_all add: s' get_all_books_def)
  ultimately show "\<exists>rows r. get_all_books s = Inr rows \<and>
         book_data = [title r, author r, isbn r, genre r, pub_year r] \<and>
         get_all_books s' = Inr (rows @ [r]) \<and> db_file s' = Some (rows @ [r])"
    by blast
next
  show "fst (add_book [t, a, i, g, p] s) = True \<longleftrightarrow>
      (\<exists>rows. get_all_books s = Inr rows \<and> (\<forall>r \<in> set rows. \<not> sql_eq (isbn r) i)) \<and>
      t \<noteq> Null \<and> a \<noteq> Null \<and> storage s = Writable"
    by (simp add: add_book_succeeds_iff)
qed

theorem add_book_roundtrip_witness:
  "fst (add_book [Text ''Emma'', Text ''Jane Austen'', Text ''0987654321'', Text ''Novel'', Text ''1815'']
     (run [Initialize, Insert [Text ''Dune'', Text ''Frank Herbert'', Text ''1234567890'',
        Text ''Sci-Fi'', Text ''1965'']] empty_location)) = True \<and>
   get_all_books (snd (add_book [Text ''Emma'', Text ''Jane Austen'', Text ''0987654321'', Text ''Novel'', Text ''1815'']
     (run [Initialize, Insert [Text ''Dune'', Text ''Frank Herbert'', Text ''1234567890'',
        Text ''Sci-Fi'', Text ''1965'']] empty_location))) =
   Inr [\<lparr>title = Text ''Dune'', author = Text ''Frank Herbert'', isbn = Text ''1234567890'',
       genre = Text ''Sci-Fi'', pub_year = Text ''1965''\<rparr>,
      \<lparr>title = Text ''Emma'', author = Text ''Jane Austen'', isbn = Text ''0987654321'',
       genre = Text ''Novel'', pub_year = Text ''1815''\<rparr>]"
proof -
  define s0 where "s0 = run [Initialize, Insert [Text ''Dune'', Text ''Frank Herbert'',
      Text ''1234567890'', Text ''Sci-Fi'', Text ''1965'']] empty_location"
  define b where "b = [Text ''Emma'', Text ''Jane Austen'', Text ''0987654321'', Text ''Novel'', Text ''1815'']"
  define d where "d = \<lparr>title = Text ''Dune'', author = Text ''Frank Herbert'',
      isbn = Text ''1234567890'', genre = Text ''Sci-Fi'', pub_year = Text ''1965''\<rparr>"
  define e where "e = \<lparr>title = Text ''Emma'', author = Text ''Jane Austen'',
      isbn = Text ''0987654321'', genre = Text ''Novel'', pub_year = Text ''1815''\<rparr>"
  have g: "get_all_books s0 = Inr [d]" and w: "storage s0 = Writable"
    by (simp_all add: s0_def d_def store_defs)
  have fresh: "\<forall>r \<in> set [d]. \<not> sql_eq (isbn r) (Text ''0987654321'')"
    by (simp add: d_def)
  have ok: "fst (add_book b s0) = True"
    unfolding b_def
    using add_book_roundtrip [THEN conjunct2, of "Text ''Emma''" "Text ''Jane Austen''"
        "Text ''0987654321''" "Text ''Novel''" "Text ''1815''" s0] g w fresh
    by blast
  then have h: "add_book b s0 = (True, snd (add_book b s0))"
    by (metis prod.collapse)
  from add_book_roundtrip [THEN conjunct1, rule_format, OF h]
  obtain rows r where r: "get_all_books s0 = Inr rows"
    "b = [title r, author r, isbn r, genre r, pub_year r]"
    "get_all_books (snd (add_book b s0)) = Inr (rows @ [r])"
    by blast
  from r(2) have "r = e" by (simp add: b_def e_def)
  moreover from r(1) g have "rows = [d]" by simp
  ultimately have "get_all_books (snd (add_book b s0)) = Inr [d, e]" using r(3) by simp
  with ok show ?thesis unfolding s0_def b_def d_def e_def by (rule conjI)
qed

text \<open>
  Claim C10, as the code has it. Whenever \<^verbatim>\<open>add_book\<close> returns \<open>False\<close>, nothing is
  committed. When the record is rejected (no table, a wrong number of bindings, NOT NULL,
  a repeated key) or the full storage undoes the statement only, the state after the call
  is the state before it. When the full storage rolls the open transaction back, the
  connection is left with the committed rows: \<^verbatim>\<open>get_all_books\<close> returns the same as before
  only if nothing was uncommitted.
\<close>

theorem add_book_failure_atomic:
  assumes "fst (add_book book_data s) = False"
  shows "db_file (snd (add_book book_data s)) = db_file s \<and>
         (storage s \<noteq> FullRollsBack \<or> fst (add_book book_data (s\<lparr>storage := Writable\<rparr>)) = False \<longrightarrow>
            snd (add_book book_data s) = s) \<and>
         (storage s = FullRollsBack \<and> fst (add_book book_data (s\<lparr>storage := Writable\<rparr>)) = True \<longrightarrow>
            snd (add_book book_data s) = s\<lparr>conn := db_file s\<rparr>) \<and>
         (conn s = db_file s \<longrightarrow>
            get_all_books (snd (add_book book_data s)) = get_all_books s)"
proof -
  let ?w = "s\<lparr>storage := Writable\<rparr>"
  have rejected: ?thesis
    if "add_book book_data s = (False, s)" and "fst (add_book book_data ?w) = False"
    using that by simp
  show ?thesis
  proof (cases "conn s")
    case None
    then have "add_book book_data s = (False, s)" "fst (add_book book_data ?w) = False"
      by (simp_all add: add_book_def execute_insert_def)
    then show ?thesis by (rule rejected)
  next
    case (Some t)
    show ?thesis
    proof (cases "bind_row book_data")
      case (Inl e)
      with Some have "add_book book_data s = (False, s)" "fst (add_book book_data ?w) = False"
        by (simp_all add: add_book_def execute_insert_def)
      then show ?thesis by (rule rejected)
    next
      case (Inr r)
      show ?thesis
      proof (cases "step_insert t r")
        case (Inl e)
        with Some Inr have "add_book book_data s = (False, s)"
          "fst (add_book book_data ?w) = False"
          by (simp_all add: add_book_def execute_insert_def)
        then show ?thesis by (rule rejected)
      next
        case accepted: (Inr t')
        have w: "fst (add_book book_data ?w) = True"
          using Some Inr accepted by (simp add: add_book_def execute_insert_def write_table_def)
        show ?thesis
        proof (cases "storage s")
          case Writable
          with Some Inr accepted have "fst (add_book book_data s) = True"
            by (simp add: add_book_def execute_insert_def write_table_def)
          with assms show ?thesis by simp
        next
          case FullAbortsStatement
          with Some Inr accepted have "add_book book_data s = (False, s)"
            by (simp add: add_book_def execute_insert_def write_table_def)
          then show ?thesis using FullAbortsStatement by simp
        next
          case FullRollsBack
          with Some Inr accepted have "add_book book_data s = (False, s\<lparr>conn := db_file s\<rparr>)"
            by (simp add: add_book_def execute_insert_def write_table_def)
          then show ?thesis using FullRollsBack w by (simp add: get_all_books_def)
        qed
      qed
    qed
  qed
qed

theorem add_book_failure_atomic_witness:
  "fst (add_book [Text ''Emma'', Text ''Jane Austen'', Text ''1234567890'', Text ''Novel'']
     (run [Initialize, Insert [Text ''Dune'', Text ''Frank Herbert'', Text ''1234567890'',
        Text ''Sci-Fi'', Text ''1965'']] empty_location)) = False \<and>
   get_all_books (snd (add_book [Text ''Emma'', Text ''Jane Austen'', Text ''1234567890'', Text ''Novel'']
     (run [Initialize, Insert [Text ''Dune'', Text ''Frank Herbert'', Text ''1234567890'',
        Text ''Sci-Fi'', Text ''1965'']] empty_location))) =
   Inr [\<lparr>title = Text ''Dune'', author = Text ''Frank Herbert'', isbn = Text ''1234567890'',
       genre = Text ''Sci-Fi'', pub_year = Text ''1965''\<rparr>]"
proof -
  define s0 where "s0 = run [Initialize, Insert [Text ''Dune'', Text ''Frank Herbert'',
      Text ''1234567890'', Text ''Sci-Fi'', Text ''1965'']] empty_location"
  define b where "b = [Text ''Emma'', Text ''Jane Austen'', Text ''1234567890'', Text ''Novel'']"
  have h: "fst (add_book b s0) = False" by (simp add: s0_def b_def store_defs)
  have g: "get_all_books s0 = Inr [\<lparr>title = Text ''Dune'', author = Text ''Frank Herbert'',
      isbn = Text ''1234567890'', genre = Text ''Sci-Fi'', pub_year = Text ''1965''\<rparr>]"
    and c: "conn s0 = db_file s0"
    by (simp_all add: s0_def store_defs)
  have "get_all_books (snd (add_book b s0)) = get_all_books s0"
    using add_book_failure_atomic [OF h] c by blast
  with h g show ?thesis unfolding s0_def b_def by simp
qed

text \<open>
  Claim C7, as the schema has it. What the store enforces on \<^verbatim>\<open>title\<close> and \<^verbatim>\<open>author\<close> is
  NOT NULL: \<^verbatim>\<open>add_book\<close> of a record whose title or author is \<^verbatim>\<open>None\<close> returns \<open>False\<close> and
  leaves the state as it was. The text itself plays no part: whether \<^verbatim>\<open>add_book\<close>
  succeeds does not depend on which texts, empty or not, the title and the author are.
\<close>

theorem add_book_not_null_only:
  "(t = Null \<or> a = Null \<longrightarrow> add_book [t, a, i, g, p] s = (False, s)) \<and>
   fst (add_book [Text t1, Text a1, i, g, p] s) = fst (add_book [Text t2, Text a2, i, g, p] s)"
proof -
  have "add_book [t, a, i, g, p] s = (False, s)" if "t = Null \<or> a = Null"
    using that by (auto simp: add_book_def execute_insert_def step_insert_def split: option.splits)
  moreover have "fst (add_book [Text t1, Text a1, i, g, p] s) =
      fst (add_book [Text t2, Text a2, i, g, p] s)"
    by (simp add: add_book_succeeds_iff)
  ultimately show ?thesis by blast
qed

theorem add_book_not_null_only_witness:
  "add_book [Null, Text ''Frank Herbert'', Text ''1234567890'', Text ''Sci-Fi'', Text ''1965'']
     (initialize empty_location) = (False, initialize empty_location) \<and>
   fst (add_book [Text '''', Text '''', Text ''1234567890'', Text ''Sci-Fi'', Text ''1965'']
     (initialize empty_location)) =
   fst (add_book [Text ''Dune'', Text ''Frank Herbert'', Text ''1234567890'', Text ''Sci-Fi'', Text ''1965'']
     (initialize empty_location))"
  using add_book_not_null_only [of Null "Text ''Frank Herbert''" "Text ''1234567890''"
      "Text ''Sci-Fi''" "Text ''1965''" "initialize empty_location" "''''" "''''" "''Dune''" "''Frank Herbert''"]
  by simp

text \<open>
  An empty title and an empty author are accepted.
\<close>

theorem add_book_empty_title_author_accepted:
  "add_book [Text '''', Text '''', Text ''1234567890'', Text ''Sci-Fi'', Text ''1965'']
     (initialize empty_location) =
   (True, \<lparr>db_file = Some [\<lparr>title = Text '''', author = Text '''', isbn = Text ''1234567890'',
              genre = Text ''Sci-Fi'', pub_year = Text ''1965''\<rparr>],
           conn = Some [\<lparr>title = Text '''', author = Text '''', isbn = Text ''1234567890'',
              genre = Text ''Sci-Fi'', pub_year = Text ''1965''\<rparr>],
           storage = Writable\<rparr>)"
  by (simp add: store_defs)

subsection \<open>Delete\<close>




text \<open>
  Claim C5. When the table holds a record \<open>r\<close> with isbn \<open>k\<close>, \<^verbatim>\<open>delete_book k\<close> returns
  \<open>True\<close>, and \<^verbatim>\<open>get_all_books\<close> afterwards returns the former rows without those of
  isbn \<open>k\<close>: \<open>r\<close> is gone, and every row with another isbn is still there, unchanged and
  in the same order.
\<close>

theorem delete_book_removes_exactly:
  assumes "get_all_books s = Inr rows" and "r \<in> set rows" and "isbn r = Text k"
  shows "fst (delete_book k s) = True \<and>
         get_all_books (snd (delete_book k s)) = Inr (filter (\<lambda>r'. isbn r' \<noteq> Text k) rows) \<and>
         r \<notin> set (filter (\<lambda>r'. isbn r' \<noteq> Text k) rows) \<and>
         (\<forall>r' \<in> set rows. isbn r' \<noteq> Text k \<longrightarrow> r' \<in> set (filter (\<lambda>r'. isbn r' \<noteq> Text k) rows))"
proof -
  have c: "conn s = Some rows" using assms(1) by (simp add: get_all_books_conn)
  show ?thesis
    using assms(3) by (simp add: delete_book_conn [OF c] get_all_books_def)
qed

theorem delete_book_removes_exactly_witness:
  "fst (delete_book ''1234567890'' (run [Initialize,
       Insert [Text ''Dune'', Text ''Frank Herbert'', Text ''1234567890'', Text ''Sci-Fi'', Text ''1965''],
       Insert [Text ''Emma'', Text ''Jane Austen'', Text ''0987654321'', Text ''Novel'', Text ''1815'']]
     empty_location)) = True \<and>
   get_all_books (snd (delete_book ''1234567890'' (run [Initialize,
       Insert [Text ''Dune'', Text ''Frank Herbert'', Text ''1234567890'', Text ''Sci-Fi'', Text ''1965''],
       Insert [Text ''Emma'', Text ''Jane Austen'', Text ''0987654321'', Text ''Novel'', Text ''1815'']]
     empty_location)))
   = Inr [\<lparr>title = Text ''Emma'', author = Text ''Jane Austen'', isbn = Text ''0987654321'',
       genre = Text ''Novel'', pub_year = Text ''1815''\<rparr>]"
proof -
  let ?s = "run [Initialize,
       Insert [Text ''Dune'', Text ''Frank Herbert'', Text ''1234567890'', Text ''Sci-Fi'', Text ''1965''],
       Insert [Text ''Emma'', Text ''Jane Austen'', Text ''0987654321'', Text ''Novel'', Text ''1815'']]
     empty_location"
  let ?d = "\<lparr>title = Text ''Dune'', author = Text ''Frank Herbert'', isbn = Text ''1234567890'',
       genre = Text ''Sci-Fi'', pub_year = Text ''1965''\<rparr>"
  let ?e = "\<lparr>title = Text ''Emma'', author = Text ''Jane Austen'', isbn = Text ''0987654321'',
       genre = Text ''Novel'', pub_year = Text ''1815''\<rparr>"
  have h: "get_all_books ?s = Inr [?d, ?e]" by (simp add: store_defs)
  have m: "?d \<in> set [?d, ?e]" by simp
  have i: "isbn ?d = Text ''1234567890''" by simp
  show ?thesis using delete_book_removes_exactly [OF h m i] by simp
qed

subsection \<open>Initialization\<close>

text \<open>
  Claim C8. Running \<^verbatim>\<open>__init__\<close> again changes nothing more: the second run yields the state
  of the first. The rows committed at the location are still the committed rows
  afterwards and are what \<^verbatim>\<open>get_all_books\<close> returns; when the connection had nothing
  uncommitted, that is what \<^verbatim>\<open>get_all_books\<close> returned before.
\<close>

theorem initialize_idempotent:
  "initialize (initialize s) = initialize s \<and>
   get_all_books (initialize (initialize s)) = get_all_books (initialize s) \<and>
   (db_file s = Some rows \<longrightarrow>
      get_all_books (initialize s) = Inr rows \<and> db_file (initialize s) = Some rows) \<and>
   (get_all_books s = Inr rows \<and> db_file s = conn s \<longrightarrow>
      get_all_books (initialize s) = get_all_books s)"
  by (auto simp: initialize_def create_tables_def connect_def commit_def execute_create_def
      get_all_books_def split: option.splits)

theorem initialize_idempotent_witness:
  "get_all_books (initialize (run [Initialize, Insert [Text ''Dune'', Text ''Frank Herbert'',
      Text ''1234567890'', Text ''Sci-Fi'', Text ''1965'']] empty_location)) =
   Inr [\<lparr>title = Text ''Dune'', author = Text ''Frank Herbert'', isbn = Text ''1234567890'',
       genre = Text ''Sci-Fi'', pub_year = Text ''1965''\<rparr>] \<and>
   db_file (initialize (run [Initialize, Insert [Text ''Dune'', Text ''Frank Herbert'',
      Text ''1234567890'', Text ''Sci-Fi'', Text ''1965'']] empty_location)) =
   Some [\<lparr>title = Text ''Dune'', author = Text ''Frank Herbert'', isbn = Text ''1234567890'',
       genre = Text ''Sci-Fi'', pub_year = Text ''1965''\<rparr>]"
proof -
  let ?s = "run [Initialize, Insert [Text ''Dune'', Text ''Frank Herbert'',
      Text ''1234567890'', Text ''Sci-Fi'', Text ''1965'']] empty_location"
  let ?d = "\<lparr>title = Text ''Dune'', author = Text ''Frank Herbert'', isbn = Text ''1234567890'',
       genre = Text ''Sci-Fi'', pub_year = Text ''1965''\<rparr>"
  have h: "db_file ?s = Some [?d]" by (simp add: store_defs)
  show ?thesis using initialize_idempotent [of ?s "[?d]"] h by blast
qed

subsection \<open>Batches\<close>




subsection \<open>Decimal digits\<close>

lemma digit_char_of_char: "0 \<le> d \<Longrightarrow> d \<le> 9 \<Longrightarrow> (of_char (digit_char d) :: int) = 48 + d"
  by (simp add: digit_char_def)

lemma is_digit_digit_char: "0 \<le> d \<Longrightarrow> d \<le> 9 \<Longrightarrow> is_digit (digit_char d)"
  by (simp add: is_digit_def digit_char_of_char)

lemma digit_char_inj:
  assumes "0 \<le> a" "a \<le> 9" "0 \<le> b" "b \<le> 9" "digit_char a = digit_char b"
  shows "a = b"
proof -
  have "48 + a = (of_char (digit_char a) :: int)"
    using assms(1,2) by (simp add: digit_char_of_char)
  also have "\<dots> = of_char (digit_char b)"
    by (simp only: assms(5))
  also have "\<dots> = 48 + b"
    using assms(3,4) by (simp add: digit_char_of_char)
  finally show ?thesis by simp
qed

lemma str_digit: "0 \<le> d \<Longrightarrow> d \<le> 9 \<Longrightarrow> str d = [digit_char d]"
proof -
  assume d: "0 \<le> d" "d \<le> 9"
  then have "str_digits d = [digit_char d]"
    by (subst str_digits.simps) simp
  with d show ?thesis by (simp add: str_def)
qed

lemma str_digits_nonempty: "str_digits n \<noteq> []"
  by (subst str_digits.simps) simp

lemma str_digits_all_digits: "0 \<le> n \<Longrightarrow> list_all is_digit (str_digits n)"
proof (induction n rule: str_digits.induct)
  case (1 n)
  show ?case
  proof (cases "n < 10")
    case True
    with "1.prems" show ?thesis
      by (subst str_digits.simps) (simp add: is_digit_digit_char)
  next
    case False
    then have "list_all is_digit (str_digits (n div 10))"
      using "1.IH" "1.prems" by simp
    moreover have "is_digit (digit_char (n mod 10))"
      by (simp add: is_digit_digit_char)
    ultimately show ?thesis using False
      by (subst str_digits.simps) simp
  qed
qed

lemma str_digits_value:
  "0 \<le> n \<Longrightarrow> foldl (\<lambda>acc ch. 10 * acc + (of_char ch - 48)) 0 (str_digits n) = n"
proof (induction n rule: str_digits.induct)
  case (1 n)
  show ?case
  proof (cases "n < 10")
    case True
    with "1.prems" show ?thesis
      by (subst str_digits.simps) (simp add: digit_char_of_char)
  next
    case False
    then have "foldl (\<lambda>acc ch. 10 * acc + (of_char ch - 48)) 0 (str_digits (n div 10)) = n div 10"
      using "1.IH" "1.prems" by simp
    then show ?thesis using False
      by (subst str_digits.simps) (simp add: digit_char_of_char)
  qed
qed

lemma read_digits_str_digits: "0 \<le> n \<Longrightarrow> read_digits (str_digits n) = Some n"
  by (simp add: read_digits_def str_digits_nonempty str_digits_all_digits str_digits_value)

lemma not_is_digit_minus: "\<not> is_digit CHR ''-''"
  by (simp add: is_digit_def)

lemma read_number_str: "read_number (str v) = Some v"
proof (cases "v < 0")
  case True
  then show ?thesis
    by (simp add: read_number_def str_def read_digits_str_digits)
next
  case False
  then have nn: "0 \<le> v" by simp
  obtain ch ds where cd: "str_digits v = ch # ds"
    using str_digits_nonempty [of v] by (cases "str_digits v") auto
  have "is_digit ch" using str_digits_all_digits [OF nn] cd by simp
  then have "ch \<noteq> CHR ''-''" using not_is_digit_minus by auto
  then show ?thesis
    using False cd read_digits_str_digits [OF nn] by (simp add: read_number_def str_def)
qed

subsection \<open>The sample data\<close>

text \<open>
  The generator in closed form: the \<open>i\<close>-th record is built from the draws \<open>15 * i\<close> to
  \<open>15 * i + 14\<close>.
\<close>

lemma isbn_digits_eq:
  "isbn_digits rnd c n = (map (\<lambda>j. str (int (rnd (c + j) mod 10))) [0..<n], c + n)"
proof (induction n arbitrary: c)
  case 0
  then show ?case by simp
next
  case (Suc n)
  show ?case
    by (simp add: Suc.IH randint_def map_upt_Suc del: upt_Suc)
qed

lemma concat_isbn_digits:
  "concat (map (\<lambda>j. str (int (rnd (c + j) mod 10))) [0..<n]) =
     map (\<lambda>j. digit_char (int (rnd (c + j) mod 10))) [0..<n]"
proof -
  have "\<And>j. str (int (rnd (c + j) mod 10)) = [digit_char (int (rnd (c + j) mod 10))]"
    by (rule str_digit) simp_all
  then show ?thesis by (simp add: concat_map_singleton)
qed

lemma sample_book_eq:
  "sample_book rnd y c =
     ([Text (titles ! (rnd c mod length titles) @ '' '' @ str (1 + int (rnd (c + 1) mod 5))),
       Text (authors ! (rnd (c + 2) mod length authors)),
       Text (map (\<lambda>j. digit_char (int (rnd (c + 3 + j) mod 10))) [0..<10]),
       Text (genres ! (rnd (c + 13) mod length genres)),
       Text (str (y - 20 + int (rnd (c + 14) mod 21)))], c + 15)"
proof -
  have c1: "choice rnd c titles = (titles ! (rnd c mod length titles), c + 1)"
    by (simp add: choice_def)
  have c2: "randint rnd (c + 1) 1 5 = (1 + int (rnd (c + 1) mod 5), c + 2)"
    by (simp add: randint_def)
  have c3: "choice rnd (c + 2) authors = (authors ! (rnd (c + 2) mod length authors), c + 3)"
    by (simp add: choice_def)
  have c4: "isbn_digits rnd (c + 3) 10 =
      (map (\<lambda>j. str (int (rnd (c + 3 + j) mod 10))) [0..<10], c + 13)"
    by (simp add: isbn_digits_eq)
  have c5: "choice rnd (c + 13) genres = (genres ! (rnd (c + 13) mod length genres), c + 14)"
    by (simp add: choice_def)
  have c6: "randint rnd (c + 14) (y - 20) y = (y - 20 + int (rnd (c + 14) mod 21), c + 15)"
    by (simp add: randint_def)
  show ?thesis
    unfolding sample_book_def
    by (simp only: c1 c2 c3 c4 c5 c6 Let_def prod.case concat_isbn_digits)
qed

lemma sample_loop_eq:
  "sample_loop rnd y n c books =
     books @ map (\<lambda>i. fst (sample_book rnd y (c + 15 * i))) [0..<n]"
proof (induction n arbitrary: c books)
  case 0
  then show ?case by simp
next
  case (Suc n)
  have "sample_loop rnd y (Suc n) c books =
      sample_loop rnd y n (c + 15) (books @ [fst (sample_book rnd y c)])"
    by (simp add: sample_book_eq)
  also have "\<dots> = (books @ [fst (sample_book rnd y c)]) @
      map (\<lambda>i. fst (sample_book rnd y (c + 15 + 15 * i))) [0..<n]"
    by (rule Suc.IH)
  also have "\<dots> = books @ map (\<lambda>i. fst (sample_book rnd y (c + 15 * i))) [0..<Suc n]"
    by (simp add: map_upt_Suc add.assoc del: upt_Suc)
  finally show ?case .
qed

lemma generate_sample_data_eq:
  "generate_sample_data rnd y = map (\<lambda>i. fst (sample_book rnd y (15 * i))) [0..<50]"
  unfolding generate_sample_data_def sample_loop_eq by simp

lemma sample_book_wf:
  "\<exists>t a i g p v. fst (sample_book rnd y c) = [Text t, Text a, Text i, Text g, Text p] \<and>
     length i = 10 \<and> list_all is_digit i \<and>
     read_number p = Some v \<and> y - 20 \<le> v \<and> v \<le> y"
proof -
  let ?i = "map (\<lambda>j. digit_char (int (rnd (c + 3 + j) mod 10))) [0..<10]"
  let ?v = "y - 20 + int (rnd (c + 14) mod 21)"
  have "length ?i = 10" by simp
  moreover have "list_all is_digit ?i"
    by (simp add: list_all_iff is_digit_digit_char)
  moreover have "read_number (str ?v) = Some ?v" by (rule read_number_str)
  moreover have "y - 20 \<le> ?v" by simp
  moreover have "?v \<le> y"
  proof -
    have "rnd (c + 14) mod 21 < 21" by simp
    then show ?thesis by linarith
  qed
  ultimately show ?thesis
    unfolding sample_book_eq fst_conv by blast
qed

lemma generate_sample_data_wf:
  assumes "b \<in> set (generate_sample_data rnd y)"
  shows "\<exists>t a i g p v. b = [Text t, Text a, Text i, Text g, Text p] \<and>
     length i = 10 \<and> list_all is_digit i \<and>
     read_number p = Some v \<and> y - 20 \<le> v \<and> v \<le> y"
proof -
  from assms obtain n where "b = fst (sample_book rnd y (15 * n))"
    unfolding generate_sample_data_eq by auto
  then show ?thesis using sample_book_wf [of rnd y "15 * n"] by simp
qed

lemma generate_sample_data_length: "length (generate_sample_data rnd y) = 50"
  unfolding generate_sample_data_eq by simp

lemma step_insert_many_fresh:
  assumes "\<forall>p \<in> set ps. \<exists>t a i g q. p = [Text t, Text a, Text i, Text g, Text q]"
    and "distinct (map (\<lambda>b. b ! 2) ps)"
    and "\<forall>p \<in> set ps. p ! 2 \<notin> isbn ` set t0"
    and "conn s = Some t0" and "storage s = Writable"
  shows "\<exists>rs. map bind_row ps = map Inr rs \<and>
     step_insert_many ps s = (Inr (), s\<lparr>conn := Some (t0 @ rs)\<rparr>)"
  using assms
proof (induction ps arbitrary: s t0)
  case Nil
  then show ?case by (simp add: update_conn_same)
next
  case (Cons p ps)
  from Cons.prems(1) obtain t a i g q where p: "p = [Text t, Text a, Text i, Text g, Text q]"
    by auto
  let ?r = "\<lparr>title = Text t, author = Text a, isbn = Text i, genre = Text g, pub_year = Text q\<rparr>"
  let ?s1 = "s\<lparr>conn := Some (t0 @ [?r])\<rparr>"
  have b: "bind_row p = Inr ?r" by (simp add: p)
  have "Text i \<notin> isbn ` set t0" using Cons.prems(3) p by simp
  then have "step_insert t0 ?r = Inr (t0 @ [?r])"
    by (simp add: step_insert_def list_ex_key)
  then have e: "execute_insert p s = (Inr (), ?s1)"
    using b Cons.prems(4,5) by (simp add: execute_insert_def write_table_def)
  have fresh: "\<forall>p' \<in> set ps. p' ! 2 \<notin> isbn ` set (t0 @ [?r])"
  proof
    fix p' assume m: "p' \<in> set ps"
    then have "p' ! 2 \<notin> isbn ` set t0" using Cons.prems(3) by simp
    moreover have "p' ! 2 \<noteq> Text i" using Cons.prems(2) m p by force
    ultimately show "p' ! 2 \<notin> isbn ` set (t0 @ [?r])" by auto
  qed
  have "\<exists>rs. map bind_row ps = map Inr rs \<and>
      step_insert_many ps ?s1 = (Inr (), ?s1\<lparr>conn := Some ((t0 @ [?r]) @ rs)\<rparr>)"
    using Cons.prems(1,2,5) fresh by (intro Cons.IH) simp_all
  then obtain rs where rs: "map bind_row ps = map Inr rs"
    "step_insert_many ps ?s1 = (Inr (), ?s1\<lparr>conn := Some ((t0 @ [?r]) @ rs)\<rparr>)" by blast
  have "map bind_row (p # ps) = map Inr (?r # rs) \<and>
      step_insert_many (p # ps) s = (Inr (), s\<lparr>conn := Some (t0 @ (?r # rs))\<rparr>)"
    using b e rs by simp
  then show ?case by blast
qed

lemma bind_row_sample:
  assumes "map bind_row ps = map Inr rs" and "r \<in> set rs"
  shows "\<exists>b \<in> set ps. bind_row b = Inr r"
proof -
  have "Inr r \<in> set (map Inr rs)" using assms(2) by simp
  then have "Inr r \<in> set (map bind_row ps)" using assms(1) by simp
  then show ?thesis by auto
qed

text \<open>
  Claim C9, for a batch without a repeated isbn. \<^verbatim>\<open>_generate_sample_data\<close> returns 50
  records of five texts, each with an isbn of exactly 10 decimal digits and a publication
  year that reads as a number between the current year minus 20 and the current year.
  It does not check the isbns against each other; when the 50 are pairwise distinct,
  \<^verbatim>\<open>add_sample_books\<close> on an empty store succeeds and \<^verbatim>\<open>get_all_books\<close> returns 50 rows
  with these properties.
\<close>

theorem add_sample_books_fifty:
  "length (generate_sample_data rnd current_year) = 50 \<and>
   (\<forall>b \<in> set (generate_sample_data rnd current_year).
      \<exists>t a i g p v. b = [Text t, Text a, Text i, Text g, Text p] \<and>
        length i = 10 \<and> list_all is_digit i \<and>
        read_number p = Some v \<and> current_year - 20 \<le> v \<and> v \<le> current_year) \<and>
   (distinct (map (\<lambda>b. b ! 2) (generate_sample_data rnd current_year)) \<longrightarrow>
      (\<exists>s' rows. add_sample_books rnd current_year (initialize empty_location) = (Inr (), s') \<and>
         get_all_books s' = Inr rows \<and> length rows = 50 \<and>
         map bind_row (generate_sample_data rnd current_year) = map Inr rows \<and>
         (\<forall>r \<in> set rows. \<exists>i p v. isbn r = Text i \<and> length i = 10 \<and> list_all is_digit i \<and>
            pub_year r = Text p \<and> read_number p = Some v \<and>
            current_year - 20 \<le> v \<and> v \<le> current_year)))"
proof (intro conjI impI ballI)
  show "length (generate_sample_data rnd current_year) = 50"
    by (rule generate_sample_data_length)
next
  fix b assume "b \<in> set (generate_sample_data rnd current_year)"
  then show "\<exists>t a i g p v. b = [Text t, Text a, Text i, Text g, Text p] \<and>
        length i = 10 \<and> list_all is_digit i \<and>
        read_number p = Some v \<and> current_year - 20 \<le> v \<and> v \<le> current_year"
    by (rule generate_sample_data_wf)
next
  let ?ps = "generate_sample_data rnd current_year"
  assume d: "distinct (map (\<lambda>b. b ! 2) ?ps)"
  have shape: "\<forall>p \<in> set ?ps. \<exists>t a i g q. p = [Text t, Text a, Text i, Text g, Text q]"
    using generate_sample_data_wf [of _ rnd current_year] by blast
  let ?s0 = "initialize empty_location"
  have s0: "conn ?s0 = Some []" "storage ?s0 = Writable" "db_file ?s0 = Some []"
    by (simp_all add: store_defs)
  have "\<exists>rs. map bind_row ?ps = map Inr rs \<and>
      step_insert_many ?ps ?s0 = (Inr (), ?s0\<lparr>conn := Some ([] @ rs)\<rparr>)"
    using shape d s0 by (intro step_insert_many_fresh) simp_all
  then obtain rs where rs: "map bind_row ?ps = map Inr rs"
    and m: "step_insert_many ?ps ?s0 = (Inr (), ?s0\<lparr>conn := Some rs\<rparr>)" by auto
  let ?s' = "commit (?s0\<lparr>conn := Some rs\<rparr>)"
  have run: "add_sample_books rnd current_year ?s0 = (Inr (), ?s')"
    using m s0 by (simp add: add_sample_books_def insert_sample_data_def executemany_insert_def)
  have len: "length rs = 50"
  proof -
    have "length (map Inr rs :: (sqlite_error + books_row) list) = length (map bind_row ?ps)"
      using rs by simp
    then show ?thesis by (simp add: generate_sample_data_length)
  qed
  have rows: "\<forall>r \<in> set rs. \<exists>i p v. isbn r = Text i \<and> length i = 10 \<and> list_all is_digit i \<and>
            pub_year r = Text p \<and> read_number p = Some v \<and>
            current_year - 20 \<le> v \<and> v \<le> current_year"
  proof
    fix r assume "r \<in> set rs"
    from bind_row_sample [OF rs this] obtain b where b: "b \<in> set ?ps" "bind_row b = Inr r"
      by blast
    from generate_sample_data_wf [OF b(1)] obtain t a i g p v where
      w: "b = [Text t, Text a, Text i, Text g, Text p]" "length i = 10" "list_all is_digit i"
      "read_number p = Some v" "current_year - 20 \<le> v" "v \<le> current_year" by blast
    from b(2) w(1) have "isbn r = Text i" "pub_year r = Text p" by auto
    with w show "\<exists>i p v. isbn r = Text i \<and> length i = 10 \<and> list_all is_digit i \<and>
            pub_year r = Text p \<and> read_number p = Some v \<and>
            current_year - 20 \<le> v \<and> v \<le> current_year" by blast
  qed
  show "\<exists>s' rows. add_sample_books rnd current_year (initialize empty_location) = (Inr (), s') \<and>
         get_all_books s' = Inr rows \<and> length rows = 50 \<and>
         map bind_row ?ps = map Inr rows \<and>
         (\<forall>r \<in> set rows. \<exists>i p v. isbn r = Text i \<and> length i = 10 \<and> list_all is_digit i \<and>
            pub_year r = Text p \<and> read_number p = Some v \<and>
            current_year - 20 \<le> v \<and> v \<le> current_year)"
    using run len rs rows
    by (intro exI [of _ ?s'] exI [of _ rs]) (simp add: get_all_books_def commit_def)
qed

text \<open>
  Draws that write the index of the record into the first two digits of its isbn give
  50 distinct keys.
\<close>

lemma spread_isbn_distinct:
  assumes r0: "\<And>i. rnd (15 * i + 3) = i div 10" and r1: "\<And>i. rnd (15 * i + 4) = i"
  shows "distinct (map (\<lambda>b. b ! 2) (generate_sample_data rnd y))"
proof -
  let ?f = "\<lambda>i. Text (map (\<lambda>j. digit_char (int (rnd (15 * i + 3 + j) mod 10))) [0..<10])"
  have m: "map (\<lambda>b. b ! 2) (generate_sample_data rnd y) = map ?f [0..<50]"
    unfolding generate_sample_data_eq by (simp add: sample_book_eq)
  have "inj_on ?f (set [0..<50])"
  proof (rule inj_onI)
    fix i i' assume i: "i \<in> set [0..<50]" and i': "i' \<in> set [0..<50]" and eq: "?f i = ?f i'"
    from eq have all: "\<forall>j \<in> set [0..<10]. digit_char (int (rnd (15 * i + 3 + j) mod 10)) =
        digit_char (int (rnd (15 * i' + 3 + j) mod 10))"
      by (simp only: sql_value.inject map_eq_conv)
    have "digit_char (int (rnd (15 * i + 3 + 0) mod 10)) =
        digit_char (int (rnd (15 * i' + 3 + 0) mod 10))"
      using all by (intro bspec [OF all]) simp
    then have "digit_char (int (i div 10 mod 10)) = digit_char (int (i' div 10 mod 10))"
      by (simp only: add_0_right r0)
    then have a: "int (i div 10 mod 10) = int (i' div 10 mod 10)"
      by (intro digit_char_inj) simp_all
    have e1: "\<And>k::nat. 15 * k + 3 + 1 = 15 * k + 4" by simp
    have "digit_char (int (rnd (15 * i + 3 + 1) mod 10)) =
        digit_char (int (rnd (15 * i' + 3 + 1) mod 10))"
      using all by (intro bspec [OF all]) simp
    then have "digit_char (int (i mod 10)) = digit_char (int (i' mod 10))"
      by (simp only: e1 r1)
    then have b: "int (i mod 10) = int (i' mod 10)"
      by (intro digit_char_inj) simp_all
    from i i' have lt: "i < 50" "i' < 50" by simp_all
    then have "i div 10 < 10" "i' div 10 < 10" by simp_all
    then have "i div 10 = i' div 10" using a by simp
    moreover have "i mod 10 = i' mod 10" using b by simp
    moreover have "i = 10 * (i div 10) + i mod 10" "i' = 10 * (i' div 10) + i' mod 10"
      by simp_all
    ultimately show "i = i'" by metis
  qed
  then have "distinct (map ?f [0..<50])" by (simp add: distinct_map)
  then show ?thesis by (simp only: m)
qed

theorem add_sample_books_fifty_witness:
  "distinct (map (\<lambda>b. b ! 2)
     (generate_sample_data (\<lambda>c. if c mod 15 = 3 then c div 150 else c div 15) 2026)) \<and>
   (\<exists>s' rows. add_sample_books (\<lambda>c. if c mod 15 = 3 then c div 150 else c div 15) 2026
        (initialize empty_location) = (Inr (), s') \<and>
      get_all_books s' = Inr rows \<and> length rows = 50)"
proof -
  let ?rnd = "\<lambda>c::nat. if c mod 15 = 3 then c div 150 else c div 15"
  have r0: "\<And>i. ?rnd (15 * i + 3) = i div 10" by simp
  have r1: "\<And>i. ?rnd (15 * i + 4) = i" by simp
  have d: "distinct (map (\<lambda>b. b ! 2) (generate_sample_data ?rnd 2026))"
    using r0 r1 by (rule spread_isbn_distinct)
  show ?thesis
    using add_sample_books_fifty [of ?rnd 2026] d by blast
qed

subsection \<open>Draws that repeat an isbn\<close>

text \<open>
  When every draw has the least outcome, the 50 records are the same record. The second
  one collides with the first: \<^verbatim>\<open>executemany\<close> raises, the commit is not reached, and the
  first record stays in the open transaction.
\<close>

lemma digit_char_0: "digit_char 0 = CHR ''0''"
  by code_simp

lemma str_1: "str 1 = ''1''"
  by code_simp

lemma str_2006: "str 2006 = ''2006''"
  by code_simp

lemma ten_zeros: "map (\<lambda>j. CHR ''0'') [0..<10] = ''0000000000''"
  by code_simp

lemma sample_book_const:
  "fst (sample_book (\<lambda>c. 0) 2026 c) =
     [Text ''The Art of Programming 1'', Text ''John Smith'', Text ''0000000000'',
      Text ''Programming'', Text ''2006'']"
  unfolding sample_book_eq fst_conv
  by (simp add: titles_def authors_def genres_def digit_char_0 str_1 str_2006 ten_zeros)

lemma generate_sample_data_const:
  "generate_sample_data (\<lambda>c. 0) 2026 =
     replicate 50 [Text ''The Art of Programming 1'', Text ''John Smith'', Text ''0000000000'',
      Text ''Programming'', Text ''2006'']"
  unfolding generate_sample_data_eq sample_book_const
  by (simp add: map_replicate_const)

lemma step_insert_many_repeated:
  "step_insert_many (replicate (Suc (Suc n))
     [Text ''The Art of Programming 1'', Text ''John Smith'', Text ''0000000000'',
      Text ''Programming'', Text ''2006'']) (initialize empty_location) =
   (Inl IntegrityError,
    \<lparr>db_file = Some [],
     conn = Some [\<lparr>title = Text ''The Art of Programming 1'', author = Text ''John Smith'',
       isbn = Text ''0000000000'', genre = Text ''Programming'', pub_year = Text ''2006''\<rparr>],
     storage = Writable\<rparr>)"
  by (simp add: store_defs)

lemma add_sample_books_const:
  "add_sample_books (\<lambda>c. 0) 2026 (initialize empty_location) =
     (Inl IntegrityError,
      \<lparr>db_file = Some [],
       conn = Some [\<lparr>title = Text ''The Art of Programming 1'', author = Text ''John Smith'',
         isbn = Text ''0000000000'', genre = Text ''Programming'', pub_year = Text ''2006''\<rparr>],
       storage = Writable\<rparr>)"
proof -
  have e: "Suc (Suc 48) = (50::nat)" by simp
  note m = step_insert_many_repeated [of 48, unfolded e]
  have c: "conn (initialize empty_location) = Some []" by (simp add: store_defs)
  show ?thesis
    unfolding add_sample_books_def generate_sample_data_const
    by (simp add: insert_sample_data_def executemany_insert_def m c)
qed

text \<open>
  Then \<^verbatim>\<open>get_all_books\<close> returns one row, not 50.
\<close>

theorem add_sample_books_repeated_isbn:
  "generate_sample_data (\<lambda>c. 0) 2026 =
     replicate 50 [Text ''The Art of Programming 1'', Text ''John Smith'', Text ''0000000000'',
       Text ''Programming'', Text ''2006''] \<and>
   get_all_books (snd (add_sample_books (\<lambda>c. 0) 2026 (initialize empty_location))) =
     Inr [\<lparr>title = Text ''The Art of Programming 1'', author = Text ''John Smith'',
       isbn = Text ''0000000000'', genre = Text ''Programming'', pub_year = Text ''2006''\<rparr>]"
  by (simp only: generate_sample_data_const add_sample_books_const snd_conv)
    (simp add: get_all_books_def)


text \<open>
  The first record of the failed batch is listed until an \<^verbatim>\<open>add_book\<close> meets a full
  storage that rolls the transaction back: it returns \<open>False\<close>, and the row is listed no
  more.
\<close>

theorem add_book_full_storage_loses_rows:
  "get_all_books ((snd (add_sample_books (\<lambda>c. 0) 2026 (initialize empty_location)))
       \<lparr>storage := FullRollsBack\<rparr>) =
     Inr [\<lparr>title = Text ''The Art of Programming 1'', author = Text ''John Smith'',
       isbn = Text ''0000000000'', genre = Text ''Programming'', pub_year = Text ''2006''\<rparr>] \<and>
   fst (add_book [Text ''Dune'', Text ''Frank Herbert'', Text ''1234567890'', Text ''Sci-Fi'', Text ''1965'']
     ((snd (add_sample_books (\<lambda>c. 0) 2026 (initialize empty_location)))
       \<lparr>storage := FullRollsBack\<rparr>)) = False \<and>
   get_all_books (snd (add_book [Text ''Dune'', Text ''Frank Herbert'', Text ''1234567890'',
       Text ''Sci-Fi'', Text ''1965'']
     ((snd (add_sample_books (\<lambda>c. 0) 2026 (initialize empty_location)))
       \<lparr>storage := FullRollsBack\<rparr>))) = Inr []"
  by (simp only: add_sample_books_const snd_conv fst_conv)
    (simp add: get_all_books_def add_book_def execute_insert_def step_insert_def
      write_table_def)

end
